theory Spec2Isabelle
  imports Main "HOL-Library.Word"
begin

unbundle bit_operations_syntax

section \<open>Python values used by markdown2html.py\<close>

text \<open>
  A Python \<open>str\<close> is modelled as a \<open>string\<close> whose characters are the code points
  U+0000 to U+00FF, so \<open>length\<close> counts code points as Python's \<open>len\<close> does on such
  text. Lines with code points above U+00FF are outside the model.
\<close>

definition newline :: char where
  "newline = CHR 0x0A"

text \<open>\<open>str.isspace\<close> on one character: the code points below 256 that Python strips.\<close>

definition isspace :: "char \<Rightarrow> bool" where
  "isspace c = (c \<in> set [CHR 0x09, CHR 0x0A, CHR 0x0B, CHR 0x0C, CHR 0x0D, CHR 0x1C,
                          CHR 0x1D, CHR 0x1E, CHR 0x1F, CHR 0x20, CHR 0x85, CHR 0xA0])"

text \<open>\<open>str.rstrip()\<close> and \<open>str.strip()\<close> without arguments.\<close>

definition rstrip :: "string \<Rightarrow> string" where
  "rstrip s = rev (dropWhile isspace (rev s))"

definition strip :: "string \<Rightarrow> string" where
  "strip s = rstrip (dropWhile isspace s)"

text \<open>\<open>str(n)\<close> for a non-negative integer, as the f-string formats the heading level.\<close>

fun str_nat :: "nat \<Rightarrow> string" where
  "str_nat n = (if n < 10 then [''0123456789'' ! n]
                else str_nat (n div 10) @ [''0123456789'' ! (n mod 10)])"

declare str_nat.simps [simp del]

text \<open>\<open>'\n'.join(xs)\<close>.\<close>

fun join :: "string \<Rightarrow> string list \<Rightarrow> string" where
  "join sep [] = []"
| "join sep [x] = x"
| "join sep (x # y # ys) = x @ sep @ join sep (y # ys)"

section \<open>hashlib.md5 and str.encode\<close>

text \<open>
  \<open>convert_to_md5\<close> calls \<open>hashlib.md5(text.encode()).hexdigest()\<close>. The library's MD5
  is the algorithm of RFC 1321, written out here on 32-bit words; \<open>encode\<close> is UTF-8 on
  the code points of the model.
\<close>

type_synonym u32 = "32 word"
type_synonym byte = "8 word"

definition encode_char :: "char \<Rightarrow> byte list" where
  "encode_char c = (let n = (of_char c :: nat) in
     if n < 128 then [of_nat n] else [of_nat (192 + n div 64), of_nat (128 + n mod 64)])"

definition encode :: "string \<Rightarrow> byte list" where
  "encode s = concat (map encode_char s)"

definition md5_K :: "u32 list" where
  "md5_K = [0xd76aa478, 0xe8c7b756, 0x242070db, 0xc1bdceee, 0xf57c0faf, 0x4787c62a,
            0xa8304613, 0xfd469501, 0x698098d8, 0x8b44f7af, 0xffff5bb1, 0x895cd7be,
            0x6b901122, 0xfd987193, 0xa679438e, 0x49b40821, 0xf61e2562, 0xc040b340,
            0x265e5a51, 0xe9b6c7aa, 0xd62f105d, 0x02441453, 0xd8a1e681, 0xe7d3fbc8,
            0x21e1cde6, 0xc33707d6, 0xf4d50d87, 0x455a14ed, 0xa9e3e905, 0xfcefa3f8,
            0x676f02d9, 0x8d2a4c8a, 0xfffa3942, 0x8771f681, 0x6d9d6122, 0xfde5380c,
            0xa4beea44, 0x4bdecfa9, 0xf6bb4b60, 0xbebfbc70, 0x289b7ec6, 0xeaa127fa,
            0xd4ef3085, 0x04881d05, 0xd9d4d039, 0xe6db99e5, 0x1fa27cf8, 0xc4ac5665,
            0xf4292244, 0x432aff97, 0xab9423a7, 0xfc93a039, 0x655b59c3, 0x8f0ccc92,
            0xffeff47d, 0x85845dd1, 0x6fa87e4f, 0xfe2ce6e0, 0xa3014314, 0x4e0811a1,
            0xf7537e82, 0xbd3af235, 0x2ad7d2bb, 0xeb86d391]"

definition md5_S :: "nat list" where
  "md5_S = [7, 12, 17, 22, 7, 12, 17, 22, 7, 12, 17, 22, 7, 12, 17, 22,
            5, 9, 14, 20, 5, 9, 14, 20, 5, 9, 14, 20, 5, 9, 14, 20,
            4, 11, 16, 23, 4, 11, 16, 23, 4, 11, 16, 23, 4, 11, 16, 23,
            6, 10, 15, 21, 6, 10, 15, 21, 6, 10, 15, 21, 6, 10, 15, 21]"

definition rotl32 :: "u32 \<Rightarrow> nat \<Rightarrow> u32" where
  "rotl32 x s = (push_bit s x) OR (drop_bit (32 - s) x)"

definition md5_step :: "u32 list \<Rightarrow> nat \<Rightarrow> u32 \<times> u32 \<times> u32 \<times> u32 \<Rightarrow> u32 \<times> u32 \<times> u32 \<times> u32" where
  "md5_step M i st = (case st of (A, B, C, D) \<Rightarrow>
     (let (F, g) =
        (if i < 16 then ((B AND C) OR (NOT B AND D), i)
         else if i < 32 then ((D AND B) OR (NOT D AND C), (5 * i + 1) mod 16)
         else if i < 48 then (B XOR C XOR D, (3 * i + 5) mod 16)
         else (C XOR (B OR NOT D), (7 * i) mod 16));
        F' = F + A + md5_K ! i + M ! g
      in (D, B + rotl32 F' (md5_S ! i), B, C)))"

text \<open>Little-endian bytes to a word, and a list cut into pieces of \<open>n\<close>.\<close>

fun le_word :: "byte list \<Rightarrow> u32" where
  "le_word [] = 0"
| "le_word (b # bs) = ucast b + push_bit 8 (le_word bs)"

fun chunks :: "nat \<Rightarrow> 'a list \<Rightarrow> 'a list list" where
  "chunks n [] = []"
| "chunks n (x # xs) =
     (if n = 0 then [] else take n (x # xs) # chunks n (drop n (x # xs)))"

definition md5_block :: "u32 \<times> u32 \<times> u32 \<times> u32 \<Rightarrow> byte list \<Rightarrow> u32 \<times> u32 \<times> u32 \<times> u32" where
  "md5_block st blk = (case st of (a0, b0, c0, d0) \<Rightarrow>
     (case fold (md5_step (map le_word (chunks 4 blk))) [0..<64] st of
        (A, B, C, D) \<Rightarrow> (a0 + A, b0 + B, c0 + C, d0 + D)))"

text \<open>The message length in bits, as eight little-endian bytes (modulo \<open>2^64\<close>).\<close>

definition length_bytes :: "nat \<Rightarrow> byte list" where
  "length_bytes n = map (\<lambda>i. ucast (drop_bit (8 * i) (of_nat (8 * n) :: 64 word))) [0..<8]"

definition md5_pad :: "byte list \<Rightarrow> byte list" where
  "md5_pad m = m @ [0x80] @ replicate ((119 - length m mod 64) mod 64) 0
                 @ length_bytes (length m)"

definition word_bytes :: "u32 \<Rightarrow> byte list" where
  "word_bytes w = map (\<lambda>i. ucast (drop_bit (8 * i) w)) [0..<4]"

definition md5_digest :: "byte list \<Rightarrow> byte list" where
  "md5_digest m =
     (case fold (\<lambda>blk st. md5_block st blk) (chunks 64 (md5_pad m))
             (0x67452301, 0xefcdab89, 0x98badcfe, 0x10325476) of
        (a, b, c, d) \<Rightarrow> concat (map word_bytes [a, b, c, d]))"

definition hex_digit :: "nat \<Rightarrow> char" where
  "hex_digit n = ''0123456789abcdef'' ! (n mod 16)"

definition hex_byte :: "byte \<Rightarrow> string" where
  "hex_byte b = [hex_digit (unat b div 16), hex_digit (unat b)]"

definition hexdigest :: "byte list \<Rightarrow> string" where
  "hexdigest bs = concat (map hex_byte bs)"

section \<open>The helpers of markdown2html.py\<close>

text \<open>\<open>convert_to_md5(text)\<close>: \<open>hashlib.md5(text.encode()).hexdigest()\<close>.\<close>

definition convert_to_md5 :: "string \<Rightarrow> string" where
  "convert_to_md5 text = hexdigest (md5_digest (encode text))"

text \<open>\<open>remove_c_from_text(text)\<close>: \<open>text.replace('c', '').replace('C', '')\<close>.\<close>

definition remove_c_from_text :: "string \<Rightarrow> string" where
  "remove_c_from_text text = filter (\<lambda>x. x \<noteq> CHR ''C'') (filter (\<lambda>x. x \<noteq> CHR ''c'') text)"

section \<open>The regular expressions\<close>

text \<open>
  \<open>re.match(r'^(#{1,6}) (.*)', line)\<close>. The greedy \<open>#{1,6}\<close> first takes as many
  \<open>#\<close> as there are, six at most, and gives them back one at a time until a space
  follows; \<open>(.*)\<close> then runs to the first newline. The result is the pair of groups.
\<close>

fun heading_backtrack :: "string \<Rightarrow> nat \<Rightarrow> (string \<times> string) option" where
  "heading_backtrack line 0 = None"
| "heading_backtrack line (Suc k) =
     (if take 1 (drop (Suc k) line) = '' ''
      then Some (take (Suc k) line, takeWhile (\<lambda>c. c \<noteq> newline) (drop (Suc (Suc k)) line))
      else heading_backtrack line k)"

definition heading_match :: "string \<Rightarrow> (string \<times> string) option" where
  "heading_match line =
     heading_backtrack line (min 6 (length (takeWhile (\<lambda>c. c = CHR ''#'') line)))"

text \<open>
  The lazy group \<open>(.*?)\<close> followed by a literal closing delimiter \<open>cl\<close>: the shortest
  run of characters other than newline after which \<open>cl\<close> stands. The result is the
  group and the text after the delimiter.
\<close>

fun lazy_span :: "string \<Rightarrow> string \<Rightarrow> (string \<times> string) option" where
  "lazy_span cl [] = (if cl = [] then Some ([], []) else None)"
| "lazy_span cl (c # cs) =
     (if take (length cl) (c # cs) = cl then Some ([], drop (length cl) (c # cs))
      else if c = newline then None
      else map_option (\<lambda>(x, rest). (c # x, rest)) (lazy_span cl cs))"

lemma lazy_span_length:
  "lazy_span cl s = Some (x, rest) \<Longrightarrow> length rest \<le> length s"
  by (induction s arbitrary: x) (auto split: if_splits)

text \<open>
  \<open>re.sub\<close> for a pattern \<open>op(.*?)cl\<close> with literal, non-empty delimiters and a
  replacement computed from the group: the text is scanned from the left; where the
  pattern matches, the replacement is written and the scan goes on after the match;
  elsewhere the character is copied.
\<close>

function re_sub :: "string \<Rightarrow> string \<Rightarrow> (string \<Rightarrow> string) \<Rightarrow> string \<Rightarrow> string" where
  "re_sub op cl repl s =
     (case s of
        [] \<Rightarrow> []
      | c # cs \<Rightarrow>
          (if op \<noteq> [] \<and> take (length op) s = op then
             (case lazy_span cl (drop (length op) s) of
                Some (x, rest) \<Rightarrow> repl x @ re_sub op cl repl rest
              | None \<Rightarrow> c # re_sub op cl repl cs)
           else c # re_sub op cl repl cs))"
  by pat_completeness auto
termination
proof (relation "measure (\<lambda>(op, cl, repl, s). length s)")
  fix op cl :: string and repl :: "string \<Rightarrow> string" and s :: string
    and c cs p x rest
  assume s: "s = c # cs" and op: "op \<noteq> [] \<and> take (length op) s = op"
    and m: "lazy_span cl (drop (length op) s) = Some p" and p: "(x, rest) = p"
  from m p have "length rest \<le> length (drop (length op) s)"
    using lazy_span_length by metis
  moreover from op s have "length (drop (length op) s) < length s"
    by (cases op) auto
  ultimately show "((op, cl, repl, rest), (op, cl, repl, s)) \<in> measure (\<lambda>(op, cl, repl, s). length s)"
    by simp
qed auto

declare re_sub.simps [simp del]

section \<open>process\_markdown\_line\<close>

text \<open>
  The function returns a bare \<open>str\<close> on two of its paths and a pair of \<open>str\<close> on the
  others; the model keeps the two shapes apart.
\<close>

datatype retval = RStr string | RTuple string string

text \<open>Lines 55 to 64: the four \<open>re.sub\<close> calls, one definition for each.\<close>

definition sub_bold :: "string \<Rightarrow> string" where
  "sub_bold line = re_sub ''**'' ''**'' (\<lambda>x. ''<b>'' @ x @ ''</b>'') line"

definition sub_emphasis :: "string \<Rightarrow> string" where
  "sub_emphasis line = re_sub ''__'' ''__'' (\<lambda>x. ''<em>'' @ x @ ''</em>'') line"

definition sub_md5 :: "string \<Rightarrow> string" where
  "sub_md5 line = re_sub ''[['' '']]'' convert_to_md5 line"

definition sub_remove_c :: "string \<Rightarrow> string" where
  "sub_remove_c line = re_sub ''(('' ''))'' remove_c_from_text line"

text \<open>The four calls in the order of the source, each on the result of the one before.\<close>

definition substitute :: "string \<Rightarrow> string" where
  "substitute line =
     (let line = sub_bold line;
          line = sub_emphasis line;
          line = sub_md5 line;
          line = sub_remove_c line
      in line)"

text \<open>Lines 67 to 69: the blank-line test on the substituted text.\<close>

definition line_break :: "string \<Rightarrow> retval" where
  "line_break line = (if strip line = [] then RTuple [] ''newline'' else RStr line)"

definition process_markdown_line :: "string \<Rightarrow> retval" where
  "process_markdown_line line =
     (case heading_match line of
        Some (hashes, content) \<Rightarrow>
          RStr (''<h'' @ str_nat (length hashes) @ ''>'' @ content
                @ ''</h'' @ str_nat (length hashes) @ ''>'')
      | None \<Rightarrow>
          if take 2 line = ''- '' then RTuple (''<li>'' @ drop 2 line @ ''</li>'') ''ul''
          else if take 2 line = ''* '' then RTuple (''<li>'' @ drop 2 line @ ''</li>'') ''ol''
          else line_break (substitute line))"

section \<open>The loop of main\<close>

datatype error = ValueError

text \<open>
  \<open>html_line, tag_type = process_markdown_line(line)\<close>: a pair unpacks into its
  components; a \<open>str\<close> unpacks into its characters, and only when there are exactly two.
\<close>

definition unpack2 :: "retval \<Rightarrow> error + (string \<times> string)" where
  "unpack2 r =
     (case r of
        RTuple a b \<Rightarrow> Inr (a, b)
      | RStr s \<Rightarrow> (case s of [a, b] \<Rightarrow> Inr ([a], [b]) | _ \<Rightarrow> Inl ValueError))"

text \<open>The loop state: \<open>html_lines\<close> and \<open>list_type\<close> (\<open>None\<close>, \<open>"ul"\<close> or \<open>"ol"\<close>).\<close>

type_synonym state = "string list \<times> string option"

text \<open>The truth value of \<open>list_type\<close> in \<open>if list_type:\<close>.\<close>

definition truthy :: "string option \<Rightarrow> bool" where
  "truthy lt = (case lt of None \<Rightarrow> False | Some t \<Rightarrow> t \<noteq> [])"

text \<open>What \<open>if list_type: html_lines.append(f"</{list_type}>")\<close> appends.\<close>

definition closing :: "string option \<Rightarrow> string list" where
  "closing lt = (case lt of None \<Rightarrow> [] | Some t \<Rightarrow> if t \<noteq> [] then [''</'' @ t @ ''>''] else [])"

text \<open>Lines 98 to 121: the body of the loop after the unpacking.\<close>

definition accumulate :: "string \<times> string \<Rightarrow> state \<Rightarrow> state" where
  "accumulate p st =
     (case p of (html_line, tag_type) \<Rightarrow>
      case st of (html_lines, list_type) \<Rightarrow>
        if tag_type = ''ul'' then
          ((if list_type \<noteq> Some ''ul'' then html_lines @ closing list_type @ [''<ul>'']
            else html_lines), Some ''ul'')
        else if tag_type = ''ol'' then
          ((if list_type \<noteq> Some ''ol'' then html_lines @ closing list_type @ [''<ol>'']
            else html_lines), Some ''ol'')
        else if tag_type = ''newline'' then
          (html_lines @ closing list_type @ [''<p>''],
           if truthy list_type then None else list_type)
        else
          (html_lines @ closing list_type @ [html_line],
           if truthy list_type then None else list_type))"

text \<open>Lines 93 to 121: the loop over the lines; an exception ends it.\<close>

fun main_loop :: "string list \<Rightarrow> state \<Rightarrow> error + state" where
  "main_loop [] st = Inr st"
| "main_loop (line # lines) st =
     (case unpack2 (process_markdown_line (rstrip line)) of
        Inl e \<Rightarrow> Inl e
      | Inr p \<Rightarrow> main_loop lines (accumulate p st))"

text \<open>Lines 123 and 124: the block still open after the last line is closed.\<close>

definition finalize :: "state \<Rightarrow> string list" where
  "finalize st = (case st of (html_lines, list_type) \<Rightarrow> html_lines @ closing list_type)"

text \<open>Lines 90 to 124: the output lines for the lines read from the file.\<close>

definition main_html_lines :: "string list \<Rightarrow> error + string list" where
  "main_html_lines lines =
     (case main_loop lines ([], None) of Inl e \<Rightarrow> Inl e | Inr st \<Rightarrow> Inr (finalize st))"

text \<open>Lines 90 to 128: the text written to the output file.\<close>

definition main_output :: "string list \<Rightarrow> error + string" where
  "main_output lines =
     (case main_html_lines lines of Inl e \<Rightarrow> Inl e | Inr out \<Rightarrow> Inr (join [newline] out))"

text \<open>The loop body and the finalization on pairs already unpacked.\<close>

definition accumulate_all :: "(string \<times> string) list \<Rightarrow> string list" where
  "accumulate_all ps = finalize (fold accumulate ps ([], None))"

section \<open>Notions the properties are stated with\<close>

text \<open>
  The pattern \<open>op(.*?)cl\<close> matches at the start of the text \<open>t\<close>.
\<close>

definition match_at :: "string \<Rightarrow> string \<Rightarrow> string \<Rightarrow> bool" where
  "match_at op cl t \<longleftrightarrow>
     op \<noteq> [] \<and> take (length op) t = op \<and> lazy_span cl (drop (length op) t) \<noteq> None"

text \<open>
  The pattern matches somewhere in the text, as \<open>re.search\<close> would find. A line
  "without such a group" is one where this is false.
\<close>

fun contains_group :: "string \<Rightarrow> string \<Rightarrow> string \<Rightarrow> bool" where
  "contains_group op cl [] = False"
| "contains_group op cl (c # cs) = (match_at op cl (c # cs) \<or> contains_group op cl cs)"

text \<open>
  The text \<open>x\<close> is what the lazy group \<open>(.*?)\<close> takes when \<open>x\<close>, the closing
  delimiter \<open>cl\<close> and \<open>post\<close> follow: \<open>x\<close> has no newline, and \<open>cl\<close> stands at
  no position \<open>i\<close> before the end of \<open>x\<close>.
\<close>

definition lazy_group :: "string \<Rightarrow> string \<Rightarrow> string \<Rightarrow> bool" where
  "lazy_group x cl post \<longleftrightarrow>
     newline \<notin> set x
     \<and> list_all (\<lambda>i. take (length cl) (drop i (x @ cl @ post)) \<noteq> cl) [0..<length x]"

text \<open>
  In the text \<open>pre @ op @ x @ cl @ post\<close> the leftmost match of the pattern starts
  right after \<open>pre\<close> (no match starts at a position \<open>i\<close> inside \<open>pre\<close>), and its
  group is \<open>x\<close>.
\<close>

definition leftmost_group :: "string \<Rightarrow> string \<Rightarrow> string \<Rightarrow> string \<Rightarrow> string \<Rightarrow> bool" where
  "leftmost_group op cl pre x post \<longleftrightarrow>
     list_all (\<lambda>i. \<not> match_at op cl (drop i (pre @ op @ x @ cl @ post))) [0..<length pre]
     \<and> lazy_group x cl post"

text \<open>
  The bracketing of an output sequence, read from the left with the block that is open:
  an opening tag may come only when no block is open, a closing tag only when the block
  of its kind is open, and any other line only when no block is open. The result is
  the block left open at the end, or \<open>None\<close> when the sequence breaks the rule.
\<close>

fun bracket_scan :: "string option \<Rightarrow> string list \<Rightarrow> string option option" where
  "bracket_scan ob [] = Some ob"
| "bracket_scan ob (l # ls) =
     (if l = ''<ul>'' then (if ob = None then bracket_scan (Some ''ul'') ls else None)
      else if l = ''<ol>'' then (if ob = None then bracket_scan (Some ''ol'') ls else None)
      else if l = ''</ul>'' then (if ob = Some ''ul'' then bracket_scan None ls else None)
      else if l = ''</ol>'' then (if ob = Some ''ol'' then bracket_scan None ls else None)
      else (if ob = None then bracket_scan None ls else None))"

section \<open>The heading pattern\<close>

lemma take1_hashes:
  "k < n \<Longrightarrow> take 1 (drop k (replicate n CHR ''#'' @ rest)) = ''#''"
  by (simp add: min_def)

lemma heading_backtrack_hashes:
  "k < n \<Longrightarrow> heading_backtrack (replicate n CHR ''#'' @ rest) k = None"
proof (induction k)
  case 0
  show ?case by simp
next
  case (Suc k)
  then have "take 1 (drop (Suc k) (replicate n CHR ''#'' @ rest)) = ''#''"
    using take1_hashes by blast
  with Suc show ?case by simp
qed

lemma heading_backtrack_at:
  "0 < n \<Longrightarrow> heading_backtrack (replicate n CHR ''#'' @ rest) n =
     (if take 1 rest = '' ''
      then Some (replicate n CHR ''#'', takeWhile (\<lambda>c. c \<noteq> newline) (drop 1 rest))
      else None)"
proof (cases n)
  case 0
  assume "0 < n" with 0 show ?thesis by simp
next
  case (Suc k)
  have "heading_backtrack (replicate n CHR ''#'' @ rest) k = None"
    using heading_backtrack_hashes [of k n rest] Suc by simp
  then show ?thesis using Suc by simp
qed

lemma run_hashes:
  "take 1 rest \<noteq> ''#'' \<Longrightarrow>
   takeWhile (\<lambda>c. c = CHR ''#'') (replicate n CHR ''#'' @ rest) = replicate n CHR ''#''"
  by (induction n) (cases rest; simp)+

lemma run_hashes_ge:
  "n \<le> length (takeWhile (\<lambda>c. c = CHR ''#'') (replicate n CHR ''#'' @ rest))"
  by (induction n) simp_all

lemma heading_match_some:
  assumes "1 \<le> n" "n \<le> 6"
  shows "heading_match (replicate n CHR ''#'' @ '' '' @ content) =
           Some (replicate n CHR ''#'', takeWhile (\<lambda>c. c \<noteq> newline) content)"
proof -
  have "takeWhile (\<lambda>c. c = CHR ''#'') (replicate n CHR ''#'' @ '' '' @ content)
          = replicate n CHR ''#''"
    by (rule run_hashes) simp
  then have "heading_match (replicate n CHR ''#'' @ '' '' @ content) =
      heading_backtrack (replicate n CHR ''#'' @ '' '' @ content) n"
    using assms by (simp add: heading_match_def)
  also have "\<dots> = Some (replicate n CHR ''#'', takeWhile (\<lambda>c. c \<noteq> newline) content)"
    using assms heading_backtrack_at [of n "'' '' @ content"] by simp
  finally show ?thesis .
qed

lemma heading_match_seven:
  assumes "7 \<le> n"
  shows "heading_match (replicate n CHR ''#'' @ rest) = None"
proof -
  have "min 6 (length (takeWhile (\<lambda>c. c = CHR ''#'') (replicate n CHR ''#'' @ rest))) = 6"
    using run_hashes_ge [of n rest] assms by simp
  then show ?thesis
    using assms heading_backtrack_hashes [of 6 n rest] by (simp add: heading_match_def)
qed

lemma heading_match_no_space:
  assumes "take 1 rest \<noteq> ''#''" "take 1 rest \<noteq> '' ''"
  shows "heading_match (replicate n CHR ''#'' @ rest) = None"
proof (cases "n \<le> 6")
  case True
  have run: "takeWhile (\<lambda>c. c = CHR ''#'') (replicate n CHR ''#'' @ rest)
               = replicate n CHR ''#''"
    using assms(1) by (rule run_hashes)
  show ?thesis
  proof (cases "n = 0")
    case True
    with run show ?thesis by (simp add: heading_match_def)
  next
    case False
    then show ?thesis
      using run True assms(2) heading_backtrack_at [of n rest]
      by (simp add: heading_match_def)
  qed
next
  case False
  then show ?thesis using heading_match_seven by simp
qed

lemma hashes_not_list:
  "1 \<le> n \<Longrightarrow> take 2 (replicate n CHR ''#'' @ rest) \<noteq> ''- ''
     \<and> take 2 (replicate n CHR ''#'' @ rest) \<noteq> ''* ''"
  by (cases n) auto

lemma heading_match_not_hash:
  "take 1 line \<noteq> ''#'' \<Longrightarrow> heading_match line = None"
  by (cases line) (simp_all add: heading_match_def)

section \<open>Whitespace\<close>

lemma strip_empty_iff: "strip s = [] \<longleftrightarrow> (\<forall>c\<in>set s. isspace c)"
proof
  assume "strip s = []"
  then have "\<forall>x\<in>set (dropWhile isspace s). isspace x"
    by (simp add: strip_def rstrip_def)
  then have "dropWhile isspace s = []"
    using hd_dropWhile [of isspace s] by (metis list.set_sel(1))
  then show "\<forall>c\<in>set s. isspace c"
    by simp
next
  assume "\<forall>c\<in>set s. isspace c"
  then have e: "dropWhile isspace s = []"
    by simp
  show "strip s = []"
    unfolding strip_def rstrip_def e by simp
qed

section \<open>The lazy group and re.sub\<close>

lemma lazy_span_unfold:
  "lazy_span cl s =
     (if take (length cl) s = cl then Some ([], drop (length cl) s)
      else case s of [] \<Rightarrow> None
           | c # cs \<Rightarrow> if c = newline then None
                       else map_option (\<lambda>(x, rest). (c # x, rest)) (lazy_span cl cs))"
  by (cases s) auto

lemma lazy_span_prefix: "lazy_span cl (cl @ post) = Some ([], post)"
  by (subst lazy_span_unfold) simp

lemma lazy_span_shortest:
  "newline \<notin> set x \<Longrightarrow>
   (\<forall>i<length x. take (length cl) (drop i (x @ cl @ post)) \<noteq> cl) \<Longrightarrow>
   lazy_span cl (x @ cl @ post) = Some (x, post)"
proof (induction x)
  case Nil
  show ?case by (simp add: lazy_span_prefix)
next
  case (Cons a x)
  from Cons.prems(2) have 0: "take (length cl) (a # x @ cl @ post) \<noteq> cl"
    by (metis append_Cons drop0 length_greater_0_conv list.distinct(1))
  have "\<forall>i<length x. take (length cl) (drop i (x @ cl @ post)) \<noteq> cl"
  proof (intro allI impI)
    fix i assume "i < length x"
    then have "Suc i < length (a # x)" by simp
    with Cons.prems(2) have "take (length cl) (drop (Suc i) ((a # x) @ cl @ post)) \<noteq> cl"
      by blast
    then show "take (length cl) (drop i (x @ cl @ post)) \<noteq> cl" by simp
  qed
  with Cons have "lazy_span cl (x @ cl @ post) = Some (x, post)" by simp
  with 0 Cons.prems(1) show ?case by auto
qed

lemma lazy_span_sound:
  "lazy_span cl s = Some (x, post) \<Longrightarrow>
   s = x @ cl @ post \<and> newline \<notin> set x
   \<and> (\<forall>i<length x. take (length cl) (drop i s) \<noteq> cl)"
proof (induction s arbitrary: x)
  case Nil
  then show ?case by (simp split: if_splits)
next
  case (Cons c cs)
  show ?case
  proof (cases "take (length cl) (c # cs) = cl")
    case True
    with Cons.prems have "x = []" "post = drop (length cl) (c # cs)" by simp_all
    with True show ?thesis by (metis append_Nil append_take_drop_id empty_iff length_0_conv list.set(1) not_less_zero list.size(3))
  next
    case False
    with Cons.prems obtain x' where x': "x = c # x'" "c \<noteq> newline"
      "lazy_span cl cs = Some (x', post)"
      by (auto split: if_splits)
    from Cons.IH [OF x'(3)] have ih: "cs = x' @ cl @ post" "newline \<notin> set x'"
      "\<forall>i<length x'. take (length cl) (drop i cs) \<noteq> cl" by blast+
    have "\<forall>i<length x. take (length cl) (drop i (c # cs)) \<noteq> cl"
    proof (intro allI impI)
      fix i assume i: "i < length x"
      show "take (length cl) (drop i (c # cs)) \<noteq> cl"
      proof (cases i)
        case 0 with False show ?thesis by simp
      next
        case (Suc j)
        with i x'(1) have "j < length x'" by simp
        with ih(3) Suc show ?thesis by simp
      qed
    qed
    moreover have "c # cs = x @ cl @ post" using x'(1) ih(1) by simp
    moreover have "newline \<notin> set x" using x'(1,2) ih(2) by simp
    ultimately show ?thesis by blast
  qed
qed

lemma lazy_group_alt:
  "lazy_group x cl post \<longleftrightarrow>
     newline \<notin> set x
     \<and> (\<forall>i<length x. take (length cl) (drop i (x @ cl @ post)) \<noteq> cl)"
  by (auto simp: lazy_group_def list_all_iff)

lemma leftmost_group_alt:
  "leftmost_group op cl pre x post \<longleftrightarrow>
     (\<forall>i<length pre. \<not> match_at op cl (drop i (pre @ op @ x @ cl @ post)))
     \<and> lazy_group x cl post"
  by (auto simp: leftmost_group_def list_all_iff)

lemma lazy_group_iff:
  "lazy_group x cl post \<longleftrightarrow> lazy_span cl (x @ cl @ post) = Some (x, post)"
  unfolding lazy_group_alt
  using lazy_span_shortest [of x cl post] lazy_span_sound [of cl "x @ cl @ post" x post]
  by blast

lemma re_sub_skip:
  "\<not> match_at op cl (c # cs) \<Longrightarrow> re_sub op cl repl (c # cs) = c # re_sub op cl repl cs"
  by (subst re_sub.simps) (auto simp: match_at_def split: option.splits)

lemma re_sub_match:
  "op \<noteq> [] \<Longrightarrow> lazy_span cl s = Some (x, rest) \<Longrightarrow>
   re_sub op cl repl (op @ s) = repl x @ re_sub op cl repl rest"
  by (subst re_sub.simps) (auto simp: neq_Nil_conv)

lemma re_sub_before_match:
  "(\<forall>i<length pre. \<not> match_at op cl (drop i (pre @ s))) \<Longrightarrow>
   re_sub op cl repl (pre @ s) = pre @ re_sub op cl repl s"
proof (induction pre)
  case Nil
  show ?case by simp
next
  case (Cons a pre)
  from Cons.prems have "\<not> match_at op cl (drop 0 ((a # pre) @ s))"
    by blast
  then have head: "re_sub op cl repl ((a # pre) @ s) = a # re_sub op cl repl (pre @ s)"
    by (simp add: re_sub_skip)
  have "\<forall>i<length pre. \<not> match_at op cl (drop i (pre @ s))"
  proof (intro allI impI)
    fix i assume "i < length pre"
    then have "Suc i < length (a # pre)" by simp
    with Cons.prems have "\<not> match_at op cl (drop (Suc i) ((a # pre) @ s))" by blast
    then show "\<not> match_at op cl (drop i (pre @ s))" by simp
  qed
  with Cons.IH head show ?case by simp
qed

lemma re_sub_leftmost:
  assumes "op \<noteq> []" "leftmost_group op cl pre x post"
  shows "re_sub op cl repl (pre @ op @ x @ cl @ post) = pre @ repl x @ re_sub op cl repl post"
proof -
  from assms(2) have "lazy_span cl (x @ cl @ post) = Some (x, post)"
    by (simp add: leftmost_group_alt lazy_group_iff)
  with assms(1) have "re_sub op cl repl (op @ x @ cl @ post) = repl x @ re_sub op cl repl post"
    by (rule re_sub_match)
  moreover from assms(2) have
    "re_sub op cl repl (pre @ op @ x @ cl @ post) = pre @ re_sub op cl repl (op @ x @ cl @ post)"
    unfolding leftmost_group_alt using re_sub_before_match by blast
  ultimately show ?thesis by simp
qed

lemma re_sub_no_group:
  "\<not> contains_group op cl s \<Longrightarrow> re_sub op cl repl s = s"
proof (induction s)
  case Nil
  show ?case by (simp add: re_sub.simps [of op cl repl "[]"])
next
  case (Cons c cs)
  then show ?case by (simp add: re_sub_skip)
qed

lemma leftmost_group_exists:
  "contains_group op cl s \<Longrightarrow>
   \<exists>pre x post. s = pre @ op @ x @ cl @ post \<and> leftmost_group op cl pre x post"
proof (induction s)
  case Nil
  then show ?case by simp
next
  case (Cons c cs)
  show ?case
  proof (cases "match_at op cl (c # cs)")
    case True
    then obtain x post where op: "take (length op) (c # cs) = op"
      and m: "lazy_span cl (drop (length op) (c # cs)) = Some (x, post)"
      by (auto simp: match_at_def)
    from lazy_span_sound [OF m] have d: "drop (length op) (c # cs) = x @ cl @ post"
      by blast
    have "c # cs = take (length op) (c # cs) @ drop (length op) (c # cs)"
      by simp
    with op d have s: "c # cs = [] @ op @ x @ cl @ post" by simp
    from m d have "lazy_group x cl post" by (simp add: lazy_group_iff)
    then have "leftmost_group op cl [] x post" by (simp add: leftmost_group_alt)
    with s show ?thesis by blast
  next
    case False
    with Cons.prems have "contains_group op cl cs" by simp
    with Cons.IH obtain pre x post where s: "cs = pre @ op @ x @ cl @ post"
      and l: "leftmost_group op cl pre x post" by blast
    have "\<forall>i<length (c # pre). \<not> match_at op cl (drop i ((c # pre) @ op @ x @ cl @ post))"
    proof (intro allI impI)
      fix i assume i: "i < length (c # pre)"
      show "\<not> match_at op cl (drop i ((c # pre) @ op @ x @ cl @ post))"
      proof (cases i)
        case 0
        with False s show ?thesis by simp
      next
        case (Suc j)
        with i have "j < length pre" by simp
        with l Suc show ?thesis by (simp add: leftmost_group_alt)
      qed
    qed
    with l have "leftmost_group op cl (c # pre) x post" by (simp add: leftmost_group_alt)
    moreover from s have "c # cs = (c # pre) @ op @ x @ cl @ post" by simp
    ultimately show ?thesis by blast
  qed
qed

lemma leftmost_group_code:
  "leftmost_group op cl pre x post \<longleftrightarrow>
     list_all (\<lambda>i. \<not> match_at op cl (drop i (pre @ op @ x @ cl @ post))) [0..<length pre]
     \<and> lazy_span cl (x @ cl @ post) = Some (x, post)"
  by (simp add: leftmost_group_def lazy_group_iff)

section \<open>The digest and the removal of c\<close>

lemma length_md5_digest: "length (md5_digest m) = 16"
  by (simp add: md5_digest_def word_bytes_def split: prod.splits)

lemma length_hexdigest: "length (hexdigest bs) = 2 * length bs"
  by (induction bs) (simp_all add: hexdigest_def hex_byte_def)

lemma hex_digit_lower: "hex_digit n \<in> set ''0123456789abcdef''"
proof -
  have "n mod 16 < length ''0123456789abcdef''" by simp
  then show ?thesis unfolding hex_digit_def by (rule nth_mem)
qed

lemma set_hexdigest: "set (hexdigest bs) \<subseteq> set ''0123456789abcdef''"
proof (induction bs)
  case Nil
  show ?case by (simp add: hexdigest_def)
next
  case (Cons b bs)
  have "set (hex_byte b) \<subseteq> set ''0123456789abcdef''"
    using hex_digit_lower [of "unat b div 16"] hex_digit_lower [of "unat b"]
    by (simp add: hex_byte_def)
  with Cons show ?case by (simp add: hexdigest_def)
qed

lemma convert_to_md5_shape:
  "length (convert_to_md5 text) = 32
   \<and> set (convert_to_md5 text) \<subseteq> set ''0123456789abcdef''"
  by (simp only: convert_to_md5_def length_hexdigest length_md5_digest set_hexdigest) simp

text \<open>The digests of the empty text and of \<open>abc\<close>, as RFC 1321 lists them.\<close>

lemma convert_to_md5_vectors:
  "convert_to_md5 [] = ''d41d8cd98f00b204e9800998ecf8427e''"
  "convert_to_md5 ''abc'' = ''900150983cd24fb0d6963f7d28e17f72''"
  by code_simp+

lemma remove_c_from_text_filter:
  "remove_c_from_text text = filter (\<lambda>x. x \<noteq> CHR ''c'' \<and> x \<noteq> CHR ''C'') text"
  by (auto simp: remove_c_from_text_def intro: filter_cong)

section \<open>Bracketing of the output\<close>

lemma bracket_scan_append:
  "bracket_scan ob (xs @ ys) =
     (case bracket_scan ob xs of None \<Rightarrow> None | Some ob' \<Rightarrow> bracket_scan ob' ys)"
  by (induction xs arbitrary: ob) simp_all

lemma bracket_scan_range:
  "bracket_scan ob xs = Some ob' \<Longrightarrow> ob \<in> {None, Some ''ul'', Some ''ol''} \<Longrightarrow>
   ob' \<in> {None, Some ''ul'', Some ''ol''}"
  by (induction xs arbitrary: ob) (auto split: if_splits)

text \<open>What the unpacking can give for a translated line.\<close>

lemma unpack2_process_markdown_line:
  "unpack2 (process_markdown_line line) = Inr (html_line, tag_type) \<Longrightarrow>
   tag_type \<in> {''ul'', ''ol'', ''newline''} \<or> length html_line = 1 \<and> length tag_type = 1"
  by (auto simp: unpack2_def process_markdown_line_def line_break_def
           split: option.splits if_splits list.splits retval.splits)

lemma accumulate_bracket:
  assumes "bracket_scan None out = Some lt"
    and "tag_type \<in> {''ul'', ''ol'', ''newline''} \<or> length html_line = 1"
    and "accumulate (html_line, tag_type) (out, lt) = (out', lt')"
  shows "bracket_scan None out' = Some lt'"
proof -
  from assms(1) have lt: "lt \<in> {None, Some ''ul'', Some ''ol''}"
    using bracket_scan_range by blast
  from assms(2) have frag:
    "tag_type \<in> {''ul'', ''ol'', ''newline''} \<or>
     html_line \<notin> {''<ul>'', ''<ol>'', ''</ul>'', ''</ol>''}"
    by auto
  from lt frag assms(1,3) show ?thesis
    by (auto simp: accumulate_def bracket_scan_append closing_def truthy_def
             split: if_splits)
qed

lemma finalize_bracket:
  assumes "bracket_scan None out = Some lt"
  shows "bracket_scan None (finalize (out, lt)) = Some None"
proof -
  from assms have "lt \<in> {None, Some ''ul'', Some ''ol''}"
    using bracket_scan_range by blast
  with assms show ?thesis
    by (auto simp: finalize_def bracket_scan_append closing_def)
qed

lemma main_loop_bracket:
  "bracket_scan None out = Some lt \<Longrightarrow> main_loop lines (out, lt) = Inr (out', lt') \<Longrightarrow>
   bracket_scan None out' = Some lt'"
proof (induction lines arbitrary: out lt)
  case Nil
  then show ?case by simp
next
  case (Cons l lines)
  from Cons.prems(2) obtain h t where
    u: "unpack2 (process_markdown_line (rstrip l)) = Inr (h, t)"
    and rest: "main_loop lines (accumulate (h, t) (out, lt)) = Inr (out', lt')"
    by (auto split: sum.splits)
  obtain o1 l1 where a: "accumulate (h, t) (out, lt) = (o1, l1)"
    by (cases "accumulate (h, t) (out, lt)")
  from unpack2_process_markdown_line [OF u]
  have "t \<in> {''ul'', ''ol'', ''newline''} \<or> length h = 1" by blast
  with Cons.prems(1) a have "bracket_scan None o1 = Some l1"
    using accumulate_bracket by blast
  with rest a show ?case using Cons.IH by simp
qed

section \<open>The closing tag and the open block\<close>

lemma closing_cases:
  "closing None = []" "closing (Some ''ul'') = [''</ul>'']" "closing (Some ''ol'') = [''</ol>'']"
  by (simp_all add: closing_def)

lemma truthy_cases:
  "\<not> truthy None" "truthy (Some ''ul'')" "truthy (Some ''ol'')"
  by (simp_all add: truthy_def)

section \<open>The lines on which the unpacking raises\<close>

text \<open>
  The unpacking raises on every heading, and on every other line that is not a list
  item when its substituted text is not blank and not exactly two characters long.
\<close>

lemma unpack2_raises_iff:
  "unpack2 (process_markdown_line line) = Inl ValueError \<longleftrightarrow>
     heading_match line \<noteq> None
     \<or> (take 2 line \<noteq> ''- '' \<and> take 2 line \<noteq> ''* ''
        \<and> strip (substitute line) \<noteq> [] \<and> length (substitute line) \<noteq> 2)"
proof (cases "heading_match line")
  case None
  then show ?thesis
    by (auto simp: process_markdown_line_def line_break_def unpack2_def
             split: list.splits)
next
  case (Some p)
  obtain hashes content where p: "p = (hashes, content)" by (cases p)
  have "length (''<h'' @ str_nat (length hashes) @ ''>'' @ content
                @ ''</h'' @ str_nat (length hashes) @ ''>'') \<noteq> 2"
    by simp
  then have "unpack2 (RStr (''<h'' @ str_nat (length hashes) @ ''>'' @ content
                @ ''</h'' @ str_nat (length hashes) @ ''>'')) = Inl ValueError"
    unfolding unpack2_def by (auto split: list.splits)
  with Some p show ?thesis
    by (simp add: process_markdown_line_def)
qed

lemma main_loop_raises:
  "unpack2 (process_markdown_line (rstrip l)) = Inl ValueError \<Longrightarrow>
   main_loop (l # lines) st = Inl ValueError"
  by simp

text \<open>
  The only pairs the translator returns carry the tag \<open>ul\<close>, \<open>ol\<close> or \<open>newline\<close>:
  no path returns a fragment together with an empty tag.
\<close>

lemma translator_pair_tags:
  "process_markdown_line line = RTuple frag tag \<Longrightarrow> tag \<in> {''ul'', ''ol'', ''newline''}"
  by (auto simp: process_markdown_line_def line_break_def split: option.splits if_splits)

text \<open>A heading is returned as a bare string, and its unpacking raises.\<close>

lemma heading_never_unpacks:
  assumes "heading_match line \<noteq> None"
  shows "(\<exists>s. process_markdown_line line = RStr s)
     \<and> unpack2 (process_markdown_line line) = Inl ValueError"
proof -
  from assms have "\<exists>s. process_markdown_line line = RStr s"
    by (auto simp: process_markdown_line_def)
  moreover from assms have "unpack2 (process_markdown_line line) = Inl ValueError"
    using unpack2_raises_iff by blast
  ultimately show ?thesis by blast
qed

text \<open>
  A line that is neither a heading nor a list item, with a substituted text that is
  not blank, is returned as a bare string; its unpacking raises unless the text has
  exactly two characters.
\<close>

lemma plain_never_unpacks:
  assumes "heading_match line = None" "take 2 line \<noteq> ''- ''" "take 2 line \<noteq> ''* ''"
    and "strip (substitute line) \<noteq> []" and "length (substitute line) \<noteq> 2"
  shows "process_markdown_line line = RStr (substitute line)
     \<and> unpack2 (process_markdown_line line) = Inl ValueError"
proof -
  from assms(1-4) have "process_markdown_line line = RStr (substitute line)"
    by (simp add: process_markdown_line_def line_break_def)
  moreover from assms have "unpack2 (process_markdown_line line) = Inl ValueError"
    using unpack2_raises_iff by blast
  ultimately show ?thesis by blast
qed

section \<open>Where the loop raises and what it leaves out\<close>

text \<open>
  C1. The claim: the translator and the per-line loop never fail, the unpacking of the
  translator's result included. On the heading line \<open># Title\<close> the translator
  returns the bare string \<open><h1>Title</h1>\<close>; unpacking its fourteen characters into
  two names raises \<open>ValueError\<close>, and the loop ends there.
\<close>

theorem main_loop_heading_raises:
  "process_markdown_line (rstrip ''# Title'') = RStr ''<h1>Title</h1>''
   \<and> unpack2 (RStr ''<h1>Title</h1>'') = Inl ValueError
   \<and> main_loop [''# Title''] ([], None) = Inl ValueError"
  by code_simp

text \<open>
  C2. The claim: the five lines \<open># Title\<close>, \<open>- one\<close>, \<open>- two\<close>,
  \<open>Normal **text**.\<close> and the empty line give seven output lines joined by newlines.
  The run raises \<open>ValueError\<close> at the first line and writes nothing.
\<close>

theorem main_output_end_to_end_raises:
  "main_output [''# Title'', ''- one'', ''- two'', ''Normal **text**.'', ''''] = Inl ValueError"
  by code_simp

text \<open>
  C3. The claim: the loop body appends a list item's fragment inside its block. On the
  pair \<open>(<li>one</li>, ul)\<close> the body opens the block and the finalization closes it,
  and the fragment is never appended; the same on a change from \<open>ul\<close> to \<open>ol\<close>.
\<close>

theorem accumulate_drops_list_items:
  "accumulate_all [(''<li>one</li>'', ''ul'')] = [''<ul>'', ''</ul>'']
   \<and> accumulate_all [(''<li>one</li>'', ''ul''), (''<li>two</li>'', ''ol'')]
       = [''<ul>'', ''</ul>'', ''<ol>'', ''</ol>'']"
  by code_simp

section \<open>The line translator\<close>

text \<open>
  The text of a heading. For a line of one to six \<open>#\<close> followed by a space the
  translator returns the string \<open><hN>content</hN>\<close>, where \<open>N\<close> is the number of
  \<open>#\<close> (one decimal digit) and the content is what the group \<open>(.*)\<close> takes. A line
  with seven or more \<open>#\<close>, and a line whose run of \<open>#\<close> is not followed by a space,
  does not match the heading pattern and goes through the substitutions.
\<close>

lemma heading_rule:
  "(1 \<le> n \<and> n \<le> 6 \<longrightarrow>
      process_markdown_line (replicate n CHR ''#'' @ '' '' @ content) =
        RStr (''<h'' @ str_nat n @ ''>'' @ takeWhile (\<lambda>c. c \<noteq> newline) content
              @ ''</h'' @ str_nat n @ ''>''))
   \<and> (7 \<le> n \<longrightarrow>
        heading_match (replicate n CHR ''#'' @ rest) = None
        \<and> process_markdown_line (replicate n CHR ''#'' @ rest) =
            line_break (substitute (replicate n CHR ''#'' @ rest)))
   \<and> (1 \<le> n \<and> take 1 rest \<noteq> ''#'' \<and> take 1 rest \<noteq> '' '' \<longrightarrow>
        heading_match (replicate n CHR ''#'' @ rest) = None
        \<and> process_markdown_line (replicate n CHR ''#'' @ rest) =
            line_break (substitute (replicate n CHR ''#'' @ rest)))
   \<and> (n \<le> 6 \<longrightarrow> str_nat n = [''0123456789'' ! n])"
proof (intro conjI impI)
  assume "1 \<le> n \<and> n \<le> 6"
  then have "heading_match (replicate n CHR ''#'' @ '' '' @ content) =
      Some (replicate n CHR ''#'', takeWhile (\<lambda>c. c \<noteq> newline) content)"
    using heading_match_some by blast
  then show "process_markdown_line (replicate n CHR ''#'' @ '' '' @ content) =
        RStr (''<h'' @ str_nat n @ ''>'' @ takeWhile (\<lambda>c. c \<noteq> newline) content
              @ ''</h'' @ str_nat n @ ''>'')"
    unfolding process_markdown_line_def by simp
next
  assume "7 \<le> n"
  then show "heading_match (replicate n CHR ''#'' @ rest) = None"
    by (rule heading_match_seven)
next
  assume n: "7 \<le> n"
  then have "heading_match (replicate n CHR ''#'' @ rest) = None"
    by (rule heading_match_seven)
  moreover from n have "1 \<le> n" by simp
  ultimately show "process_markdown_line (replicate n CHR ''#'' @ rest) =
            line_break (substitute (replicate n CHR ''#'' @ rest))"
    using hashes_not_list [of n rest] by (simp add: process_markdown_line_def)
next
  assume "1 \<le> n \<and> take 1 rest \<noteq> ''#'' \<and> take 1 rest \<noteq> '' ''"
  then show "heading_match (replicate n CHR ''#'' @ rest) = None"
    using heading_match_no_space by blast
next
  assume a: "1 \<le> n \<and> take 1 rest \<noteq> ''#'' \<and> take 1 rest \<noteq> '' ''"
  then have "heading_match (replicate n CHR ''#'' @ rest) = None"
    using heading_match_no_space by blast
  then show "process_markdown_line (replicate n CHR ''#'' @ rest) =
            line_break (substitute (replicate n CHR ''#'' @ rest))"
    using a hashes_not_list [of n rest] by (simp add: process_markdown_line_def)
next
  assume "n \<le> 6"
  then show "str_nat n = [''0123456789'' ! n]"
    by (simp add: str_nat.simps)
qed

lemma heading_rule_examples:
  "process_markdown_line ''### a b'' = RStr ''<h3>a b</h3>''
   \<and> process_markdown_line ''###### six'' = RStr ''<h6>six</h6>''
   \<and> process_markdown_line ''####### seven'' = RStr ''####### seven''
   \<and> process_markdown_line ''#NoSpace'' = RStr ''#NoSpace''"
proof -
  have three: "replicate 3 CHR ''#'' @ '' '' @ ''a b'' = ''### a b''"
    and six: "replicate 6 CHR ''#'' @ '' '' @ ''six'' = ''###### six''"
    and seven: "replicate 7 CHR ''#'' @ '' seven'' = ''####### seven''"
    and one: "replicate 1 CHR ''#'' @ ''NoSpace'' = ''#NoSpace''"
    by code_simp+
  have digits: "str_nat 3 = ''3''" "str_nat 6 = ''6''"
    by code_simp+
  have content: "takeWhile (\<lambda>c. c \<noteq> newline) ''a b'' = ''a b''"
    "takeWhile (\<lambda>c. c \<noteq> newline) ''six'' = ''six''"
    by code_simp+
  have through: "line_break (substitute ''####### seven'') = RStr ''####### seven''"
    "line_break (substitute ''#NoSpace'') = RStr ''#NoSpace''"
    by code_simp+
  have "process_markdown_line (replicate 3 CHR ''#'' @ '' '' @ ''a b'') =
      RStr (''<h'' @ str_nat 3 @ ''>'' @ takeWhile (\<lambda>c. c \<noteq> newline) ''a b''
            @ ''</h'' @ str_nat 3 @ ''>'')"
    using heading_rule [of 3 "''a b''" "[]"] by simp
  then have "process_markdown_line ''### a b'' = RStr ''<h3>a b</h3>''"
    unfolding three digits content by simp
  moreover
  have "process_markdown_line (replicate 6 CHR ''#'' @ '' '' @ ''six'') =
      RStr (''<h'' @ str_nat 6 @ ''>'' @ takeWhile (\<lambda>c. c \<noteq> newline) ''six''
            @ ''</h'' @ str_nat 6 @ ''>'')"
    using heading_rule [of 6 "''six''" "[]"] by simp
  then have "process_markdown_line ''###### six'' = RStr ''<h6>six</h6>''"
    unfolding six digits content by simp
  moreover
  have "process_markdown_line (replicate 7 CHR ''#'' @ '' seven'') =
      line_break (substitute (replicate 7 CHR ''#'' @ '' seven''))"
    using heading_rule [of 7 "[]" "'' seven''"] by simp
  then have "process_markdown_line ''####### seven'' = RStr ''####### seven''"
    unfolding seven through .
  moreover
  have "process_markdown_line (replicate 1 CHR ''#'' @ ''NoSpace'') =
      line_break (substitute (replicate 1 CHR ''#'' @ ''NoSpace''))"
    using heading_rule [of 1 "[]" "''NoSpace''"] by simp
  then have "process_markdown_line ''#NoSpace'' = RStr ''#NoSpace''"
    unfolding one through .
  ultimately show ?thesis by blast
qed

text \<open>
  C4. The claim: for a line of one to six \<open>#\<close> followed by a space the translator
  returns the fragment \<open><hN>content</hN>\<close> together with the tag none, and other
  lines that start with \<open>#\<close> go through the substitutions. The fragment and the
  lines that go through are as the claim says (\<open>heading_rule\<close>), but line 44 returns
  the fragment alone, where the list and blank-line paths return a pair: on the heading
  \<open>### a b\<close> the result is the bare string \<open><h3>a b</h3>\<close>, its unpacking into a
  fragment and a tag raises \<open>ValueError\<close>, and so does the loop when it reaches the
  line.
\<close>

theorem heading_returns_bare_string:
  "process_markdown_line ''### a b'' = RStr ''<h3>a b</h3>''
   \<and> unpack2 (process_markdown_line ''### a b'') = Inl ValueError
   \<and> main_loop [''- x'', ''### a b''] ([], None) = Inl ValueError"
  by code_simp

text \<open>
  C5. A line that starts with \<open>- \<close> gives the pair of \<open><li>\<close>, the line without
  its first two characters, \<open></li>\<close> and the tag \<open>ul\<close>; a line that starts with
  \<open>* \<close> gives the same fragment with the tag \<open>ol\<close>.
\<close>

theorem list_item_rule:
  "(take 2 line = ''- '' \<longrightarrow>
      process_markdown_line line = RTuple (''<li>'' @ drop 2 line @ ''</li>'') ''ul'')
   \<and> (take 2 line = ''* '' \<longrightarrow>
      process_markdown_line line = RTuple (''<li>'' @ drop 2 line @ ''</li>'') ''ol'')"
proof -
  have "heading_match line = None" if "take 2 line = ''- '' \<or> take 2 line = ''* ''"
  proof (rule heading_match_not_hash)
    from that show "take 1 line \<noteq> ''#''"
      by (cases line) auto
  qed
  then show ?thesis
    by (auto simp: process_markdown_line_def)
qed

theorem list_item_rule_witness:
  "process_markdown_line ''- one'' = RTuple ''<li>one</li>'' ''ul''
   \<and> process_markdown_line ''* **two**'' = RTuple ''<li>**two**</li>'' ''ol''"
  using list_item_rule [of "''- one''"] list_item_rule [of "''* **two**''"]
  by simp

text \<open>
  The two exits for a line that is neither a heading nor a list item. When the
  substituted text is empty or holds only whitespace, the translator returns the empty
  fragment with the tag \<open>newline\<close>, which unpacks into that pair, and the loop body
  then closes the open block, if any, and emits \<open><p>\<close>. Otherwise the translator
  returns the substituted text as a string.
\<close>

lemma blank_line_rule:
  assumes "heading_match line = None" "take 2 line \<noteq> ''- ''" "take 2 line \<noteq> ''* ''"
  shows "((\<forall>c\<in>set (substitute line). isspace c) \<longrightarrow>
            process_markdown_line line = RTuple [] ''newline''
            \<and> unpack2 (process_markdown_line line) = Inr ([], ''newline''))
       \<and> (\<not> (\<forall>c\<in>set (substitute line). isspace c) \<longrightarrow>
            process_markdown_line line = RStr (substitute line))
       \<and> accumulate ([], ''newline'') (out, None) = (out @ [''<p>''], None)
       \<and> accumulate ([], ''newline'') (out, Some ''ul'') = (out @ [''</ul>'', ''<p>''], None)
       \<and> accumulate ([], ''newline'') (out, Some ''ol'') = (out @ [''</ol>'', ''<p>''], None)"
proof -
  have p: "process_markdown_line line = line_break (substitute line)"
    using assms by (simp add: process_markdown_line_def)
  have blank: "process_markdown_line line = RTuple [] ''newline''"
    if "\<forall>c\<in>set (substitute line). isspace c"
    using that p strip_empty_iff [of "substitute line"] by (simp add: line_break_def)
  have plain: "process_markdown_line line = RStr (substitute line)"
    if "\<not> (\<forall>c\<in>set (substitute line). isspace c)"
    using that p strip_empty_iff [of "substitute line"] by (simp add: line_break_def)
  have acc: "accumulate ([], ''newline'') (out, None) = (out @ [''<p>''], None)"
    "accumulate ([], ''newline'') (out, Some ''ul'') = (out @ [''</ul>'', ''<p>''], None)"
    "accumulate ([], ''newline'') (out, Some ''ol'') = (out @ [''</ol>'', ''<p>''], None)"
    by (simp_all add: accumulate_def closing_cases truthy_cases)
  from blank plain acc show ?thesis
    by (simp add: unpack2_def)
qed

lemma blank_line_rule_examples:
  "process_markdown_line ''((c))'' = RTuple [] ''newline''
   \<and> process_markdown_line ''(c)'' = RStr ''(c)''
   \<and> main_html_lines [''- a'', ''''] = Inr [''<ul>'', ''</ul>'', ''<p>'']"
proof -
  have h: "heading_match ''((c))'' = None" "take 2 ''((c))'' \<noteq> ''- ''"
    "take 2 ''((c))'' \<noteq> ''* ''"
    by code_simp+
  have s: "substitute ''((c))'' = []" by code_simp
  have h': "heading_match ''(c)'' = None" "take 2 ''(c)'' \<noteq> ''- ''"
    "take 2 ''(c)'' \<noteq> ''* ''"
    by code_simp+
  have s': "substitute ''(c)'' = ''(c)''" by code_simp
  have sp: "\<not> (\<forall>c\<in>set ''(c)''. isspace c)" by code_simp
  have "process_markdown_line ''((c))'' = RTuple [] ''newline''"
    using blank_line_rule [OF h] by (simp add: s)
  moreover have "process_markdown_line ''(c)'' = RStr ''(c)''"
    using blank_line_rule [OF h'] sp by (simp only: s') simp
  moreover have "main_html_lines [''- a'', ''''] = Inr [''<ul>'', ''</ul>'', ''<p>'']"
    by code_simp
  ultimately show ?thesis by blast
qed

text \<open>
  C6. The claim: for a line that is neither a heading nor a list item, a substituted
  text that is blank gives the empty fragment with the tag \<open>newline\<close>, and any other
  gives the substituted text as the fragment together with the tag none. The blank
  half is as the claim says (\<open>blank_line_rule\<close>), but line 69 returns the text alone,
  where the blank-line path one line above returns a pair: on the line \<open>hello\<close> the
  result is the bare string \<open>hello\<close>, its unpacking into a fragment and a tag raises
  \<open>ValueError\<close>, and so does the loop; on the two-character line \<open>ok\<close> the unpacking
  gives the tag \<open>k\<close>, not none.
\<close>

theorem plain_line_returns_bare_string:
  "process_markdown_line ''hello'' = RStr ''hello''
   \<and> unpack2 (process_markdown_line ''hello'') = Inl ValueError
   \<and> main_loop [''hello''] ([], None) = Inl ValueError
   \<and> unpack2 (process_markdown_line ''ok'') = Inr (''o'', ''k'')"
  by code_simp

text \<open>
  C7. A line that is neither a heading nor a list item goes through four substitutions,
  in this order: bold, emphasis, digest, removal of c. Each of them rewrites the text
  from the left: where the leftmost match of its pattern stands, with the lazy group
  \<open>x\<close>, the match is replaced (by \<open><b>x</b>\<close>, by \<open><em>x</em>\<close>, by the
  digest of \<open>x\<close>, by \<open>x\<close> without its \<open>c\<close> and \<open>C\<close>) and the rest of the text
  is rewritten in the same way; a text with no match is left as it is, and a text with
  a match has a leftmost one. The digest is the MD5 of the UTF-8 bytes of the group,
  thirty-two lowercase hexadecimal digits, and it is taken on the text that the bold
  and emphasis substitutions have already rewritten.
\<close>

theorem inline_substitutions:
  "(heading_match line = None \<and> take 2 line \<noteq> ''- '' \<and> take 2 line \<noteq> ''* '' \<longrightarrow>
      process_markdown_line line =
        line_break (sub_remove_c (sub_md5 (sub_emphasis (sub_bold line)))))
   \<and> (leftmost_group ''**'' ''**'' pre x post \<longrightarrow>
        sub_bold (pre @ ''**'' @ x @ ''**'' @ post) = pre @ ''<b>'' @ x @ ''</b>'' @ sub_bold post)
   \<and> (\<not> contains_group ''**'' ''**'' line \<longrightarrow> sub_bold line = line)
   \<and> (leftmost_group ''__'' ''__'' pre x post \<longrightarrow>
        sub_emphasis (pre @ ''__'' @ x @ ''__'' @ post)
          = pre @ ''<em>'' @ x @ ''</em>'' @ sub_emphasis post)
   \<and> (\<not> contains_group ''__'' ''__'' line \<longrightarrow> sub_emphasis line = line)
   \<and> (leftmost_group ''[['' '']]'' pre x post \<longrightarrow>
        sub_md5 (pre @ ''[['' @ x @ '']]'' @ post) = pre @ convert_to_md5 x @ sub_md5 post)
   \<and> (\<not> contains_group ''[['' '']]'' line \<longrightarrow> sub_md5 line = line)
   \<and> (leftmost_group ''(('' ''))'' pre x post \<longrightarrow>
        sub_remove_c (pre @ ''(('' @ x @ ''))'' @ post)
          = pre @ filter (\<lambda>c. c \<noteq> CHR ''c'' \<and> c \<noteq> CHR ''C'') x @ sub_remove_c post)
   \<and> (\<not> contains_group ''(('' ''))'' line \<longrightarrow> sub_remove_c line = line)
   \<and> (contains_group op cl line \<longrightarrow>
        (\<exists>pre x post. line = pre @ op @ x @ cl @ post \<and> leftmost_group op cl pre x post))
   \<and> convert_to_md5 x = hexdigest (md5_digest (encode x))
   \<and> length (convert_to_md5 x) = 32
   \<and> set (convert_to_md5 x) \<subseteq> set ''0123456789abcdef''"
proof (intro conjI impI)
  assume "heading_match line = None \<and> take 2 line \<noteq> ''- '' \<and> take 2 line \<noteq> ''* ''"
  then show "process_markdown_line line =
        line_break (sub_remove_c (sub_md5 (sub_emphasis (sub_bold line))))"
    by (simp add: process_markdown_line_def substitute_def)
next
  assume "leftmost_group ''**'' ''**'' pre x post"
  then show "sub_bold (pre @ ''**'' @ x @ ''**'' @ post)
      = pre @ ''<b>'' @ x @ ''</b>'' @ sub_bold post"
    unfolding sub_bold_def using re_sub_leftmost [of "''**''" "''**''" pre x post] by simp
next
  assume "\<not> contains_group ''**'' ''**'' line"
  then show "sub_bold line = line"
    unfolding sub_bold_def by (rule re_sub_no_group)
next
  assume "leftmost_group ''__'' ''__'' pre x post"
  then show "sub_emphasis (pre @ ''__'' @ x @ ''__'' @ post)
      = pre @ ''<em>'' @ x @ ''</em>'' @ sub_emphasis post"
    unfolding sub_emphasis_def using re_sub_leftmost [of "''__''" "''__''" pre x post] by simp
next
  assume "\<not> contains_group ''__'' ''__'' line"
  then show "sub_emphasis line = line"
    unfolding sub_emphasis_def by (rule re_sub_no_group)
next
  assume "leftmost_group ''[['' '']]'' pre x post"
  then show "sub_md5 (pre @ ''[['' @ x @ '']]'' @ post) = pre @ convert_to_md5 x @ sub_md5 post"
    unfolding sub_md5_def using re_sub_leftmost [of "''[[''" "'']]''" pre x post] by simp
next
  assume "\<not> contains_group ''[['' '']]'' line"
  then show "sub_md5 line = line"
    unfolding sub_md5_def by (rule re_sub_no_group)
next
  assume "leftmost_group ''(('' ''))'' pre x post"
  then show "sub_remove_c (pre @ ''(('' @ x @ ''))'' @ post)
      = pre @ filter (\<lambda>c. c \<noteq> CHR ''c'' \<and> c \<noteq> CHR ''C'') x @ sub_remove_c post"
    unfolding sub_remove_c_def
    using re_sub_leftmost [of "''((''" "''))''" pre x post]
    by (simp add: remove_c_from_text_filter)
next
  assume "\<not> contains_group ''(('' ''))'' line"
  then show "sub_remove_c line = line"
    unfolding sub_remove_c_def by (rule re_sub_no_group)
next
  assume "contains_group op cl line"
  then show "\<exists>pre x post. line = pre @ op @ x @ cl @ post \<and> leftmost_group op cl pre x post"
    by (rule leftmost_group_exists)
next
  show "convert_to_md5 x = hexdigest (md5_digest (encode x))"
    by (rule convert_to_md5_def)
next
  show "length (convert_to_md5 x) = 32"
    using convert_to_md5_shape by blast
next
  show "set (convert_to_md5 x) \<subseteq> set ''0123456789abcdef''"
    using convert_to_md5_shape by blast
qed

theorem inline_substitutions_witness:
  "process_markdown_line ''__e__ [[**a**]] ((coconut))''
     = RStr ''<em>e</em> d0d0b371e07faa35478d8dde673a8cc5 oonut''
   \<and> sub_bold ''a*b **c** d'' = ''a*b <b>c</b> d''
   \<and> sub_remove_c ''((coconut))'' = ''oonut''"
proof -
  have h: "heading_match ''__e__ [[**a**]] ((coconut))'' = None
      \<and> take 2 ''__e__ [[**a**]] ((coconut))'' \<noteq> ''- ''
      \<and> take 2 ''__e__ [[**a**]] ((coconut))'' \<noteq> ''* ''"
    by code_simp
  have v: "line_break (sub_remove_c (sub_md5 (sub_emphasis (sub_bold
             ''__e__ [[**a**]] ((coconut))''))))
           = RStr ''<em>e</em> d0d0b371e07faa35478d8dde673a8cc5 oonut''"
    by code_simp
  have one: "process_markdown_line ''__e__ [[**a**]] ((coconut))''
     = RStr ''<em>e</em> d0d0b371e07faa35478d8dde673a8cc5 oonut''"
    using inline_substitutions [where line = "''__e__ [[**a**]] ((coconut))''"] h v
    by simp
  have g: "leftmost_group ''**'' ''**'' ''a*b '' ''c'' '' d''"
    unfolding leftmost_group_code by code_simp
  have n: "\<not> contains_group ''**'' ''**'' '' d''"
    by code_simp
  have "sub_bold (''a*b '' @ ''**'' @ ''c'' @ ''**'' @ '' d'')
      = ''a*b '' @ ''<b>'' @ ''c'' @ ''</b>'' @ sub_bold '' d''"
    using inline_substitutions [where pre = "''a*b ''" and x = "''c''" and post = "'' d''"] g
    by blast
  moreover have "sub_bold '' d'' = '' d''"
    using inline_substitutions [where line = "'' d''"] n by blast
  ultimately have two: "sub_bold ''a*b **c** d'' = ''a*b <b>c</b> d''"
    by simp
  have g': "leftmost_group ''(('' ''))'' [] ''coconut'' []"
    unfolding leftmost_group_code by code_simp
  have n': "\<not> contains_group ''(('' ''))'' []"
    by code_simp
  have "sub_remove_c ([] @ ''(('' @ ''coconut'' @ ''))'' @ [])
      = [] @ filter (\<lambda>c. c \<noteq> CHR ''c'' \<and> c \<noteq> CHR ''C'') ''coconut'' @ sub_remove_c []"
    using inline_substitutions [where pre = "[]" and x = "''coconut''" and post = "[]"] g'
    by blast
  moreover have "sub_remove_c [] = []"
    using inline_substitutions [where line = "[]"] n' by blast
  ultimately have three: "sub_remove_c ''((coconut))'' = ''oonut''"
    by simp
  from one two three show ?thesis by blast
qed

text \<open>
  C9. The translator leaves a converted line as it is: for a line that is neither a
  heading nor a list item, in which none of the four patterns matches and which is not
  made of whitespace only, the translator returns the line itself, and so does the
  translator applied to that result.
\<close>

theorem idempotent_on_plain_lines:
  assumes "heading_match line = None" "take 2 line \<noteq> ''- ''" "take 2 line \<noteq> ''* ''"
    and "\<not> contains_group ''**'' ''**'' line" and "\<not> contains_group ''__'' ''__'' line"
    and "\<not> contains_group ''[['' '']]'' line" and "\<not> contains_group ''(('' ''))'' line"
    and "\<not> (\<forall>c\<in>set line. isspace c)"
  shows "process_markdown_line line = RStr line
     \<and> (\<forall>t. process_markdown_line line = RStr t \<longrightarrow> process_markdown_line t = RStr line)"
proof -
  have "substitute line = line"
    using assms(4-7) by (simp add: substitute_def sub_bold_def sub_emphasis_def sub_md5_def sub_remove_c_def
                  re_sub_no_group)
  moreover have "strip line \<noteq> []"
    using assms(8) strip_empty_iff by blast
  ultimately have "process_markdown_line line = RStr line"
    using assms(1-3) by (simp add: process_markdown_line_def line_break_def)
  then show ?thesis by simp
qed

theorem idempotent_on_plain_lines_witness:
  "process_markdown_line ''<h1>Title</h1>'' = RStr ''<h1>Title</h1>''
   \<and> process_markdown_line ''Normal <b>text</b>.'' = RStr ''Normal <b>text</b>.''"
proof -
  have h: "heading_match ''<h1>Title</h1>'' = None" "take 2 ''<h1>Title</h1>'' \<noteq> ''- ''"
    "take 2 ''<h1>Title</h1>'' \<noteq> ''* ''"
    "\<not> contains_group ''**'' ''**'' ''<h1>Title</h1>''"
    "\<not> contains_group ''__'' ''__'' ''<h1>Title</h1>''"
    "\<not> contains_group ''[['' '']]'' ''<h1>Title</h1>''"
    "\<not> contains_group ''(('' ''))'' ''<h1>Title</h1>''"
    "\<not> (\<forall>c\<in>set ''<h1>Title</h1>''. isspace c)"
    by code_simp+
  have g: "heading_match ''Normal <b>text</b>.'' = None"
    "take 2 ''Normal <b>text</b>.'' \<noteq> ''- ''"
    "take 2 ''Normal <b>text</b>.'' \<noteq> ''* ''"
    "\<not> contains_group ''**'' ''**'' ''Normal <b>text</b>.''"
    "\<not> contains_group ''__'' ''__'' ''Normal <b>text</b>.''"
    "\<not> contains_group ''[['' '']]'' ''Normal <b>text</b>.''"
    "\<not> contains_group ''(('' ''))'' ''Normal <b>text</b>.''"
    "\<not> (\<forall>c\<in>set ''Normal <b>text</b>.''. isspace c)"
    by code_simp+
  from idempotent_on_plain_lines [OF h] idempotent_on_plain_lines [OF g]
  show ?thesis by blast
qed

section \<open>The loop\<close>

text \<open>
  C8. The output is correctly bracketed. Whenever the loop runs through its lines from a
  state whose output is bracketed with \<open>list_type\<close> as the open block (the initial
  state is one), the state it reaches is again such a state: at most one block is
  open, a block is closed by its own closing tag before the other kind opens and before
  any other line is emitted. The finalization closes the block that is still open, so
  the lines written have no block open at the end. (A run that raises emits nothing.)
\<close>

theorem output_bracketed:
  "(bracket_scan None out = Some lt \<and> main_loop lines (out, lt) = Inr (out', lt') \<longrightarrow>
      bracket_scan None out' = Some lt'
      \<and> bracket_scan None (finalize (out', lt')) = Some None)
   \<and> (main_html_lines lines = Inr res \<longrightarrow> bracket_scan None res = Some None)"
proof (intro conjI impI)
  assume a: "bracket_scan None out = Some lt \<and> main_loop lines (out, lt) = Inr (out', lt')"
  then show b: "bracket_scan None out' = Some lt'"
    using main_loop_bracket by blast
  then show "bracket_scan None (finalize (out', lt')) = Some None"
    by (rule finalize_bracket)
next
  assume "main_html_lines lines = Inr res"
  then obtain o1 l1 where m: "main_loop lines ([], None) = Inr (o1, l1)"
    and r: "res = finalize (o1, l1)"
    by (auto simp: main_html_lines_def split: sum.splits)
  have "bracket_scan None [] = Some None" by simp
  then have "bracket_scan None o1 = Some l1"
    using m main_loop_bracket by blast
  then show "bracket_scan None res = Some None"
    unfolding r by (rule finalize_bracket)
qed

theorem output_bracketed_witness:
  "main_html_lines [''- a'', ''- b'', ''* c'', ''- d'', '''', ''hi'', ''* e'']
     = Inr [''<ul>'', ''</ul>'', ''<ol>'', ''</ol>'', ''<ul>'', ''</ul>'', ''<p>'', ''h'',
            ''<ol>'', ''</ol>'']
   \<and> bracket_scan None [''<ul>'', ''</ul>'', ''<ol>'', ''</ol>'', ''<ul>'', ''</ul>'', ''<p>'',
                        ''h'', ''<ol>'', ''</ol>''] = Some None
   \<and> main_loop [''- a'', ''* c''] ([], None) = Inr ([''<ul>'', ''</ul>'', ''<ol>''], Some ''ol'')
   \<and> bracket_scan None [''<ul>'', ''</ul>'', ''<ol>''] = Some (Some ''ol'')"
proof -
  have e: "main_html_lines [''- a'', ''- b'', ''* c'', ''- d'', '''', ''hi'', ''* e'']
     = Inr [''<ul>'', ''</ul>'', ''<ol>'', ''</ol>'', ''<ul>'', ''</ul>'', ''<p>'', ''h'',
            ''<ol>'', ''</ol>'']"
    by code_simp
  have m: "main_loop [''- a'', ''* c''] ([], None) = Inr ([''<ul>'', ''</ul>'', ''<ol>''], Some ''ol'')"
    by code_simp
  have i: "bracket_scan None [] = Some None" by simp
  from output_bracketed [where out = "[]" and lt = None and lines = "[''- a'', ''* c'']"
        and out' = "[''<ul>'', ''</ul>'', ''<ol>'']" and lt' = "Some ''ol''"] m i
  have "bracket_scan None [''<ul>'', ''</ul>'', ''<ol>''] = Some (Some ''ol'')"
    by blast
  moreover
  from output_bracketed
        [where lines = "[''- a'', ''- b'', ''* c'', ''- d'', '''', ''hi'', ''* e'']"
         and res = "[''<ul>'', ''</ul>'', ''<ol>'', ''</ol>'', ''<ul>'', ''</ul>'', ''<p>'',
                     ''h'', ''<ol>'', ''</ol>'']"] e
  have "bracket_scan None [''<ul>'', ''</ul>'', ''<ol>'', ''</ol>'', ''<ul>'', ''</ul>'', ''<p>'',
                        ''h'', ''<ol>'', ''</ol>''] = Some None"
    by blast
  moreover note e m
  ultimately show ?thesis by blast
qed

text \<open>
  C10. For a line that is neither a heading nor a list item and whose substituted text
  has exactly two characters, not both whitespace: the unpacking takes the first
  character as the fragment and the second as the tag, and the loop closes the open
  block, if any, and emits the first character alone.
\<close>

theorem two_character_line:
  assumes "heading_match (rstrip l) = None"
    and "take 2 (rstrip l) \<noteq> ''- ''" and "take 2 (rstrip l) \<noteq> ''* ''"
    and "substitute (rstrip l) = [a, b]" and "\<not> (isspace a \<and> isspace b)"
  shows "unpack2 (process_markdown_line (rstrip l)) = Inr ([a], [b])
     \<and> main_loop (l # lines) (out, None) = main_loop lines (out @ [[a]], None)
     \<and> main_loop (l # lines) (out, Some ''ul'') = main_loop lines (out @ [''</ul>'', [a]], None)
     \<and> main_loop (l # lines) (out, Some ''ol'') = main_loop lines (out @ [''</ol>'', [a]], None)"
proof -
  have "strip [a, b] \<noteq> []"
    using assms(5) strip_empty_iff [of "[a, b]"] by auto
  then have p: "process_markdown_line (rstrip l) = RStr [a, b]"
    using assms(1-4) by (simp add: process_markdown_line_def line_break_def)
  have u: "unpack2 (process_markdown_line (rstrip l)) = Inr ([a], [b])"
    by (simp add: p unpack2_def)
  have acc: "accumulate ([a], [b]) (out, lt) =
      (out @ closing lt @ [[a]], if truthy lt then None else lt)" for lt
    by (simp add: accumulate_def)
  show ?thesis
    by (simp add: u acc closing_cases truthy_cases)
qed

theorem two_character_line_witness:
  "main_loop [''hi''] ([], None) = Inr ([''h''], None)
   \<and> main_loop [''hi''] ([''<ul>''], Some ''ul'') = Inr ([''<ul>'', ''</ul>'', ''h''], None)
   \<and> main_html_lines [''- x'', ''hi''] = Inr [''<ul>'', ''</ul>'', ''h'']"
proof -
  have h: "heading_match (rstrip ''hi'') = None" "take 2 (rstrip ''hi'') \<noteq> ''- ''"
    "take 2 (rstrip ''hi'') \<noteq> ''* ''" "substitute (rstrip ''hi'') = [CHR ''h'', CHR ''i'']"
    "\<not> (isspace CHR ''h'' \<and> isspace CHR ''i'')"
    by code_simp+
  have "main_loop [''hi''] ([], None) = Inr ([''h''], None)"
    using two_character_line [OF h, of "[]" "[]"] by (simp del: main_loop.simps(2))
  moreover
  have "main_loop [''hi''] ([''<ul>''], Some ''ul'') = Inr ([''<ul>'', ''</ul>'', ''h''], None)"
    using two_character_line [OF h, of "[]" "[''<ul>'']"] by (simp del: main_loop.simps(2))
  moreover have "main_html_lines [''- x'', ''hi''] = Inr [''<ul>'', ''</ul>'', ''h'']"
    by code_simp
  ultimately show ?thesis by blast
qed

end
